theory Spec2Isabelle
  imports Complex_Main
begin

section \<open>Python values used by the task board\<close>

text \<open>
  The program is \<^verbatim>\<open>src/python-tk/cyberpunk_tasks.py\<close>: a Tkinter task board whose state is
  two Python lists of \<^verbatim>\<open>TaskCard\<close> objects and one JSON file. The widget calls (creating,
  packing and destroying frames, selecting a tab, refreshing scroll regions) change no list and
  no text; this development takes them to return normally and leaves them out.
\<close>

datatype error = ValueError | IndexError | TypeError | AttributeError | OSError

subsection \<open>Strings\<close>

text \<open>
  \<^verbatim>\<open>str.strip()\<close> removes leading and trailing characters for which \<^verbatim>\<open>str.isspace\<close> holds.
  A \<^typ>\<open>char\<close> is one code point below 256; there the whitespace of Python is
  TAB, LF, VT, FF, CR, FS, GS, RS, US, SPACE, NEL and NBSP.
\<close>

definition isspace :: "char \<Rightarrow> bool" where
  "isspace c \<longleftrightarrow> c \<in> {CHR 0x09, CHR 0x0A, CHR 0x0B, CHR 0x0C, CHR 0x0D,
                     CHR 0x1C, CHR 0x1D, CHR 0x1E, CHR 0x1F, CHR 0x20, CHR 0x85, CHR 0xA0}"

definition strip :: "string \<Rightarrow> string" where
  "strip s = rev (dropWhile isspace (rev (dropWhile isspace s)))"

text \<open>
  \<^verbatim>\<open>simpledialog.askstring\<close> returns \<^verbatim>\<open>None\<close> when the dialog is cancelled and the typed
  string otherwise; \<^verbatim>\<open>if text:\<close> is false for \<^verbatim>\<open>None\<close> and for the empty string only.
\<close>

fun truthy :: "string option \<Rightarrow> bool" where
  "truthy None = False"
| "truthy (Some s) = (s \<noteq> [])"

subsection \<open>JSON documents\<close>

text \<open>
  What \<^verbatim>\<open>json.load\<close> returns. An object carries its members in file order. Only the kind
  of a number matters here (it is not iterable), so numbers are integers; floating point is
  not modelled.
\<close>

datatype json =
    JNull
  | JBool bool
  | JNum int
  | JStr string
  | JArr "json list"
  | JObj "(string \<times> json) list"

text \<open>
  A Python dict built from the members of an object: a repeated key keeps the place of its
  first occurrence and the value of its last.
\<close>

fun dict_keys :: "(string \<times> json) list \<Rightarrow> string list" where
  "dict_keys [] = []"
| "dict_keys ((k, v) # kvs) = k # filter (\<lambda>k'. k' \<noteq> k) (dict_keys kvs)"

definition dict_lookup :: "(string \<times> json) list \<Rightarrow> string \<Rightarrow> json option" where
  "dict_lookup kvs k = map_of (rev kvs) k"

text \<open>\<^verbatim>\<open>data.get(key, default)\<close>: only a dict has the method.\<close>

fun py_get :: "json \<Rightarrow> string \<Rightarrow> json \<Rightarrow> error + json" where
  "py_get (JObj kvs) k d = Inr (case dict_lookup kvs k of None \<Rightarrow> d | Some v \<Rightarrow> v)"
| "py_get _ k d = Inl AttributeError"

text \<open>
  \<^verbatim>\<open>for text in v\<close>: a list yields its items, a string its characters as one-character
  strings, a dict its keys; anything else raises \<^verbatim>\<open>TypeError\<close> before the first round.
\<close>

fun py_iter :: "json \<Rightarrow> error + json list" where
  "py_iter (JArr xs) = Inr xs"
| "py_iter (JStr s) = Inr (map (\<lambda>c. JStr [c]) s)"
| "py_iter (JObj kvs) = Inr (map JStr (dict_keys kvs))"
| "py_iter _ = Inl TypeError"

subsection \<open>List methods\<close>

text \<open>\<^verbatim>\<open>xs.index(x)\<close> and \<^verbatim>\<open>xs.remove(x)\<close> raise \<^verbatim>\<open>ValueError\<close> when \<^verbatim>\<open>x\<close> is absent.\<close>

fun list_index :: "'a list \<Rightarrow> 'a \<Rightarrow> error + nat" where
  "list_index [] x = Inl ValueError"
| "list_index (y # ys) x = (if y = x then Inr 0 else map_sum id Suc (list_index ys x))"

definition list_remove :: "'a list \<Rightarrow> 'a \<Rightarrow> error + 'a list" where
  "list_remove xs x = (if x \<in> set xs then Inr (remove1 x xs) else Inl ValueError)"

text \<open>
  \<^verbatim>\<open>xs.pop(i)\<close> counts a negative index from the end and raises \<^verbatim>\<open>IndexError\<close> out of range;
  \<^verbatim>\<open>xs.insert(i, x)\<close> clamps the index into the list instead.
\<close>

definition list_pop :: "'a list \<Rightarrow> int \<Rightarrow> error + ('a \<times> 'a list)" where
  "list_pop xs i =
     (let n = int (length xs); j = (if i < 0 then i + n else i)
      in if 0 \<le> j \<and> j < n
         then Inr (xs ! nat j, take (nat j) xs @ drop (Suc (nat j)) xs)
         else Inl IndexError)"

definition list_insert :: "'a list \<Rightarrow> int \<Rightarrow> 'a \<Rightarrow> 'a list" where
  "list_insert xs i x =
     (let n = int (length xs); j = (if i < 0 then max 0 (i + n) else min i n)
      in take (nat j) xs @ x # drop (nat j) xs)"

section \<open>The board\<close>

text \<open>
  A \<^verbatim>\<open>TaskCard\<close> is a Python object: \<^verbatim>\<open>in\<close>, \<^verbatim>\<open>index\<close> and \<^verbatim>\<open>remove\<close> compare cards by
  identity. A card is therefore an address, the lists hold addresses, and the fields
  \<^verbatim>\<open>text\<close> and \<^verbatim>\<open>_drag_index\<close> of every card live in a store indexed by address.
  \<^verbatim>\<open>next_id\<close> is the next address the constructor hands out. The text of a card is
  whatever the constructor was given: a string from a dialog or from the defaults, any JSON
  value from the file.

  \<^verbatim>\<open>data_file\<close> is what \<^verbatim>\<open>tasks.json\<close> holds on disk, seen through \<^verbatim>\<open>pathlib\<close> and the
  \<^verbatim>\<open>json\<close> module of the standard library: no file (\<open>Missing\<close>), a path on which
  \<^verbatim>\<open>exists()\<close> itself raises (\<open>StatFails\<close>: up to Python 3.12 \<^verbatim>\<open>Path.exists\<close> lets every
  \<^verbatim>\<open>OSError\<close> of \<^verbatim>\<open>stat\<close> through that does not say the path is absent, permission denied
  for one), a file on which reading or parsing raises (\<open>Unreadable\<close>), or the document
  \<^verbatim>\<open>json.load\<close> returns. \<^verbatim>\<open>json.dump\<close> of a document followed by \<^verbatim>\<open>json.load\<close> is taken
  to return that document.
\<close>

type_synonym card_id = nat

datatype disk_file = Missing | StatFails | Unreadable | Content json

datatype write_result = WriteOk | OpenFails | WriteFails

record board =
  tasks :: "card_id list"
  completed :: "card_id list"
  text_of :: "card_id \<Rightarrow> json"
  drag_index_of :: "card_id \<Rightarrow> int option"
  next_id :: card_id
  data_file :: disk_file

text \<open>\<^verbatim>\<open>TaskCard.__init__\<close>: a new object with the given text and no drag in progress.\<close>

definition TaskCard :: "json \<Rightarrow> board \<Rightarrow> card_id \<times> board" where
  "TaskCard t s =
     (next_id s,
      s\<lparr>text_of := (text_of s)(next_id s := t),
        drag_index_of := (drag_index_of s)(next_id s := None),
        next_id := Suc (next_id s)\<rparr>)"

subsection \<open>Persistence\<close>

text \<open>
  The two list comprehensions of \<^verbatim>\<open>save_state\<close>, \<^verbatim>\<open>[card.text for card in self.tasks]\<close>
  and the same over \<^verbatim>\<open>self.completed\<close>, are \<open>active_texts\<close> and \<open>completed_texts\<close>.
  \<^verbatim>\<open>save_state\<close> dumps both lists of texts; every exception of the write is swallowed.
  The outcome of the write is the environment's: it succeeds, or \<^verbatim>\<open>open\<close> raises and the
  file stays as it was, or the dump raises after \<^verbatim>\<open>open\<close> truncated the file. The methods
  with a \<^verbatim>\<open>save\<close> parameter look at the outcome only when \<^verbatim>\<open>save\<close> is true.
\<close>

definition active_texts :: "board \<Rightarrow> json list" where
  "active_texts s = map (text_of s) (tasks s)"

definition completed_texts :: "board \<Rightarrow> json list" where
  "completed_texts s = map (text_of s) (completed s)"

definition save_state :: "write_result \<Rightarrow> board \<Rightarrow> board" where
  "save_state w s =
     (let data = JObj [(''tasks'', JArr (active_texts s)),
                       (''completed'', JArr (completed_texts s))]
      in case w of
           WriteOk \<Rightarrow> s\<lparr>data_file := Content data\<rparr>
         | OpenFails \<Rightarrow> s
         | WriteFails \<Rightarrow> s\<lparr>data_file := Unreadable\<rparr>)"

definition add_task :: "json \<Rightarrow> bool \<Rightarrow> write_result \<Rightarrow> board \<Rightarrow> card_id \<times> board" where
  "add_task t save w s =
     (let (card, s1) = TaskCard t s;
          s2 = s1\<lparr>tasks := tasks s1 @ [card]\<rparr>
      in (card, if save then save_state w s2 else s2))"

definition add_completed_task :: "json \<Rightarrow> bool \<Rightarrow> write_result \<Rightarrow> board \<Rightarrow> card_id \<times> board" where
  "add_completed_task t save w s =
     (let (card, s1) = TaskCard t s;
          s2 = s1\<lparr>completed := completed s1 @ [card]\<rparr>
      in (card, if save then save_state w s2 else s2))"

text \<open>
  \<^verbatim>\<open>load_state\<close> gives what it returns, or the exception that leaves it, and the board as
  it left it. \<^verbatim>\<open>self.data_file.exists()\<close> is called before \<^verbatim>\<open>try\<close>, so an exception of
  \<^verbatim>\<open>exists()\<close> leaves \<^verbatim>\<open>load_state\<close>. It returns \<^verbatim>\<open>False\<close> when the file does not exist and
  when anything inside \<^verbatim>\<open>try\<close> raises; cards added before the exception stay on the board.
\<close>

definition load_state :: "board \<Rightarrow> (error + bool) \<times> board" where
  "load_state s =
     (case data_file s of
        StatFails \<Rightarrow> (Inl OSError, s)
      | Missing \<Rightarrow> (Inr False, s)
      | Unreadable \<Rightarrow> (Inr False, s)
      | Content data \<Rightarrow>
          (case py_get data ''tasks'' (JArr []) of
             Inl e \<Rightarrow> (Inr False, s)
           | Inr v \<Rightarrow>
               (case py_iter v of
                  Inl e \<Rightarrow> (Inr False, s)
                | Inr ts \<Rightarrow>
                    (let s1 = fold (\<lambda>t b. snd (add_task t False WriteOk b)) ts s
                     in case py_get data ''completed'' (JArr []) of
                          Inl e \<Rightarrow> (Inr False, s1)
                        | Inr v' \<Rightarrow>
                            (case py_iter v' of
                               Inl e \<Rightarrow> (Inr False, s1)
                             | Inr cs \<Rightarrow>
                                 (Inr True,
                                  fold (\<lambda>t b. snd (add_completed_task t False WriteOk b)) cs s1))))))"

text \<open>
  The data part of \<^verbatim>\<open>TaskBoardApp.__init__\<close>: two empty lists (\<open>fresh\<close>), then the file,
  then, when \<^verbatim>\<open>load_state\<close> returned \<^verbatim>\<open>False\<close>, the four default tasks and a save
  (\<open>seed_defaults\<close>). An exception that leaves \<^verbatim>\<open>load_state\<close> leaves \<^verbatim>\<open>__init__\<close> too, and
  there is no application.
\<close>

definition fresh :: "disk_file \<Rightarrow> board" where
  "fresh f = \<lparr>tasks = [], completed = [], text_of = (\<lambda>_. JNull),
              drag_index_of = (\<lambda>_. None), next_id = 0, data_file = f\<rparr>"

definition default_tasks :: "string list" where
  "default_tasks = [''Patch proxies to 12.2.18'',
                    ''Prepare AI Steering Committee slides'',
                    ''Finish CrowdStrike DFD'',
                    ''Schedule PCI policy review'']"

definition seed_defaults :: "write_result \<Rightarrow> board \<Rightarrow> board" where
  "seed_defaults w s =
     save_state w (fold (\<lambda>t b. snd (add_task (JStr t) False w b)) default_tasks s)"

definition app_init :: "write_result \<Rightarrow> disk_file \<Rightarrow> error + board" where
  "app_init w f =
     (case load_state (fresh f) of
        (Inl e, s1) \<Rightarrow> Inl e
      | (Inr ok, s1) \<Rightarrow> Inr (if \<not> ok then seed_defaults w s1 else s1))"

section \<open>Card actions\<close>

subsection \<open>Drag and drop ordering\<close>

text \<open>
  \<^verbatim>\<open>on_drag_start\<close> records where the card is in the active list, or \<^verbatim>\<open>None\<close> when
  \<^verbatim>\<open>index\<close> raises \<^verbatim>\<open>ValueError\<close>.
\<close>

definition on_drag_start :: "card_id \<Rightarrow> board \<Rightarrow> board" where
  "on_drag_start self s =
     s\<lparr>drag_index_of := (drag_index_of s)
          (self := (case list_index (tasks s) self of
                      Inl e \<Rightarrow> None
                    | Inr i \<Rightarrow> Some (int i)))\<rparr>"

text \<open>
  The window system gives every card's \<^verbatim>\<open>winfo_y()\<close> and \<^verbatim>\<open>winfo_height()\<close> (a function
  \<open>geom\<close> from cards to pairs of integers) and the pointer's offset in the container.
  \<^verbatim>\<open>y + h / 2\<close> is a Python float; the integers of a screen and their halves are floats
  exactly, so the midpoint is a rational here. \<^verbatim>\<open>winfo_height() or 1\<close> replaces a height
  of zero by one.
\<close>

definition y_centers :: "(card_id \<Rightarrow> int \<times> int) \<Rightarrow> card_id list \<Rightarrow> rat list" where
  "y_centers geom cards =
     map (\<lambda>card. let (y, h0) = geom card; h = (if h0 = 0 then 1 else h0)
                  in of_int y + of_int h / 2) cards"

text \<open>
  The \<^verbatim>\<open>for i, c_y in enumerate(y_centers)\<close> loop with its \<^verbatim>\<open>break\<close>: the index at which
  the loop stops, counting from \<open>i\<close>, or \<^verbatim>\<open>None\<close> when it runs to the end and the
  \<^verbatim>\<open>else\<close> branch is taken. The assignment \<^verbatim>\<open>target_index = self._drag_index\<close> before the
  loop is always overwritten. There is one midpoint for each card, so \<^verbatim>\<open>len(cards)\<close> is
  the length of \<open>ycs\<close>.
\<close>

fun scan_centers :: "rat \<Rightarrow> rat list \<Rightarrow> nat \<Rightarrow> nat option" where
  "scan_centers p [] i = None"
| "scan_centers p (c_y # rest) i = (if p < c_y then Some i else scan_centers p rest (Suc i))"

definition target_index :: "int \<Rightarrow> rat list \<Rightarrow> int" where
  "target_index pointer_y ycs =
     (case scan_centers (of_int pointer_y) ycs 0 of
        Some i \<Rightarrow> int i
      | None \<Rightarrow> int (length ycs) - 1)"

definition on_drag_motion ::
  "card_id \<Rightarrow> (card_id \<Rightarrow> int \<times> int) \<Rightarrow> int \<Rightarrow> board \<Rightarrow> error + board" where
  "on_drag_motion self geom pointer_y s =
     (case drag_index_of s self of
        None \<Rightarrow> Inr s
      | Some d \<Rightarrow>
          (let cards = tasks s;
               t = target_index pointer_y (y_centers geom cards)
           in if t \<noteq> d
              then (case list_pop cards d of
                      Inl e \<Rightarrow> Inl e
                    | Inr (popped, rest) \<Rightarrow>
                        Inr (s\<lparr>tasks := list_insert rest t popped,
                               drag_index_of := (drag_index_of s)(self := Some t)\<rparr>))
              else Inr s))"

definition on_drag_release :: "card_id \<Rightarrow> write_result \<Rightarrow> board \<Rightarrow> board" where
  "on_drag_release self w s = save_state w (s\<lparr>drag_index_of := (drag_index_of s)(self := None)\<rparr>)"

subsection \<open>Complete, delete, edit, restore\<close>

text \<open>
  \<^verbatim>\<open>TaskCard.complete\<close> (the name \<open>complete\<close> is taken by a constant of the library): a new
  card with the same text joins the completed list, then this card leaves the active list.
\<close>

definition complete_card :: "card_id \<Rightarrow> bool \<Rightarrow> write_result \<Rightarrow> board \<Rightarrow> error + board" where
  "complete_card self save w s =
     (let s1 = snd (add_completed_task (text_of s self) False w s)
      in case (if self \<in> set (tasks s1)
               then map_sum id (\<lambda>ts. s1\<lparr>tasks := ts\<rparr>) (list_remove (tasks s1) self)
               else Inr s1) of
           Inl e \<Rightarrow> Inl e
         | Inr s2 \<Rightarrow> Inr (if save then save_state w s2 else s2))"

definition delete :: "card_id \<Rightarrow> write_result \<Rightarrow> board \<Rightarrow> error + board" where
  "delete self w s =
     (case (if self \<in> set (tasks s)
            then map_sum id (\<lambda>ts. s\<lparr>tasks := ts\<rparr>) (list_remove (tasks s) self)
            else if self \<in> set (completed s)
            then map_sum id (\<lambda>cs. s\<lparr>completed := cs\<rparr>) (list_remove (completed s) self)
            else Inr s) of
        Inl e \<Rightarrow> Inl e
      | Inr s1 \<Rightarrow> Inr (save_state w s1))"

text \<open>\<open>new_text\<close> is what the edit dialog returned.\<close>

definition edit :: "card_id \<Rightarrow> string option \<Rightarrow> write_result \<Rightarrow> board \<Rightarrow> board" where
  "edit self new_text w s =
     (case new_text of
        None \<Rightarrow> s
      | Some t \<Rightarrow>
          if truthy new_text
          then save_state w (s\<lparr>text_of := (text_of s)(self := JStr (strip t))\<rparr>)
          else s)"

definition restore :: "card_id \<Rightarrow> bool \<Rightarrow> write_result \<Rightarrow> board \<Rightarrow> error + board" where
  "restore self save w s =
     (case (if self \<in> set (completed s)
            then map_sum id (\<lambda>cs. s\<lparr>completed := cs\<rparr>) (list_remove (completed s) self)
            else Inr s) of
        Inl e \<Rightarrow> Inl e
      | Inr s1 \<Rightarrow>
          (let s2 = snd (add_task (text_of s1 self) False w s1)
           in Inr (if save then save_state w s2 else s2)))"

text \<open>\<open>text\<close> is what the new-task dialog returned.\<close>

definition add_task_dialog :: "string option \<Rightarrow> write_result \<Rightarrow> board \<Rightarrow> board" where
  "add_task_dialog text w s =
     (case text of
        None \<Rightarrow> s
      | Some t \<Rightarrow> if truthy text then snd (add_task (JStr (strip t)) True w s) else s)"

section \<open>Runs of the application\<close>

text \<open>
  The events Tk can deliver to the handlers above. An event that belongs to a card can only
  come from a card object that exists. When a handler raises, Tk reports the exception and
  the main loop goes on with the board as the handler left it; the only \<^verbatim>\<open>raise\<close> that can
  happen, in \<^verbatim>\<open>pop\<close>, comes before the handler has changed anything.
\<close>

datatype event =
    AddDialog "string option"
  | Complete card_id
  | Restore card_id
  | Delete card_id
  | Edit card_id "string option"
  | DragStart card_id
  | DragMotion card_id "card_id \<Rightarrow> int \<times> int" int
  | DragRelease card_id

fun enabled :: "event \<Rightarrow> board \<Rightarrow> bool" where
  "enabled (AddDialog text) s = True"
| "enabled (Complete c) s = (c < next_id s)"
| "enabled (Restore c) s = (c < next_id s)"
| "enabled (Delete c) s = (c < next_id s)"
| "enabled (Edit c new_text) s = (c < next_id s)"
| "enabled (DragStart c) s = (c < next_id s)"
| "enabled (DragMotion c geom pointer_y) s = (c < next_id s)"
| "enabled (DragRelease c) s = (c < next_id s)"

fun handle :: "write_result \<Rightarrow> event \<Rightarrow> board \<Rightarrow> error + board" where
  "handle w (AddDialog text) s = Inr (add_task_dialog text w s)"
| "handle w (Complete c) s = complete_card c True w s"
| "handle w (Restore c) s = restore c True w s"
| "handle w (Delete c) s = delete c w s"
| "handle w (Edit c new_text) s = Inr (edit c new_text w s)"
| "handle w (DragStart c) s = Inr (on_drag_start c s)"
| "handle w (DragMotion c geom pointer_y) s = on_drag_motion c geom pointer_y s"
| "handle w (DragRelease c) s = Inr (on_drag_release c w s)"

definition step :: "write_result \<times> event \<Rightarrow> board \<Rightarrow> board" where
  "step we s = (case handle (fst we) (snd we) s of Inl e \<Rightarrow> s | Inr s' \<Rightarrow> s')"

text \<open>A run is a list of events, each with the outcome of the write it may cause.\<close>

fun run :: "(write_result \<times> event) list \<Rightarrow> board \<Rightarrow> board option" where
  "run [] s = Some s"
| "run (we # rest) s = (if enabled (snd we) s then run rest (step we s) else None)"

section \<open>Invariants of the board\<close>

text \<open>
  Every card in a list has been constructed (\<open>cards_allocated\<close>), and no card occurs twice
  in the two lists together (\<open>board_inv\<close>).
\<close>

definition cards_allocated :: "board \<Rightarrow> bool" where
  "cards_allocated s \<longleftrightarrow> (\<forall>c \<in> set (tasks s) \<union> set (completed s). c < next_id s)"

definition board_inv :: "board \<Rightarrow> bool" where
  "board_inv s \<longleftrightarrow> cards_allocated s \<and> distinct (tasks s @ completed s)"

text \<open>
  The data model of the specification asks that the text of a record be a string that is
  not empty after trimming (\<open>valid_text\<close>); \<open>texts_valid\<close> says so of every card that has
  been constructed. A dialog input is \<open>good_input\<close> when the dialog was cancelled, or left
  empty, or holds something other than whitespace.
\<close>

fun valid_text :: "json \<Rightarrow> bool" where
  "valid_text (JStr s) = (strip s \<noteq> [])"
| "valid_text _ = False"

definition texts_valid :: "board \<Rightarrow> bool" where
  "texts_valid s \<longleftrightarrow> (\<forall>c<next_id s. valid_text (text_of s c))"

fun good_input :: "string option \<Rightarrow> bool" where
  "good_input None = True"
| "good_input (Some t) = (t = [] \<or> strip t \<noteq> [])"

fun good_event :: "event \<Rightarrow> bool" where
  "good_event (AddDialog text) = good_input text"
| "good_event (Edit c new_text) = good_input new_text"
| "good_event _ = True"

section \<open>Persistence: saving and loading\<close>

lemma save_state_fields [simp]:
  "tasks (save_state w s) = tasks s"
  "completed (save_state w s) = completed s"
  "text_of (save_state w s) = text_of s"
  "drag_index_of (save_state w s) = drag_index_of s"
  "next_id (save_state w s) = next_id s"
  by (cases w; simp add: save_state_def)+

lemma save_state_file:
  "data_file (save_state WriteOk s) =
     Content (JObj [(''tasks'', JArr (active_texts s)), (''completed'', JArr (completed_texts s))])"
  by (simp add: save_state_def)

lemma add_task_fields [simp]:
  "fst (add_task t sv w s) = next_id s"
  "tasks (snd (add_task t sv w s)) = tasks s @ [next_id s]"
  "completed (snd (add_task t sv w s)) = completed s"
  "text_of (snd (add_task t sv w s)) = (text_of s)(next_id s := t)"
  "next_id (snd (add_task t sv w s)) = Suc (next_id s)"
  by (simp_all add: add_task_def TaskCard_def Let_def)

lemma add_completed_task_fields [simp]:
  "fst (add_completed_task t sv w s) = next_id s"
  "tasks (snd (add_completed_task t sv w s)) = tasks s"
  "completed (snd (add_completed_task t sv w s)) = completed s @ [next_id s]"
  "text_of (snd (add_completed_task t sv w s)) = (text_of s)(next_id s := t)"
  "next_id (snd (add_completed_task t sv w s)) = Suc (next_id s)"
  by (simp_all add: add_completed_task_def TaskCard_def Let_def)

lemma texts_save_state [simp]:
  "active_texts (save_state w s) = active_texts s"
  "completed_texts (save_state w s) = completed_texts s"
  by (simp_all add: active_texts_def completed_texts_def)

lemma allocated_add_task: "cards_allocated s \<Longrightarrow> cards_allocated (snd (add_task t sv w s))"
  by (auto simp: cards_allocated_def less_Suc_eq)

lemma allocated_add_completed_task: "cards_allocated s \<Longrightarrow> cards_allocated (snd (add_completed_task t sv w s))"
  by (auto simp: cards_allocated_def less_Suc_eq)

lemma texts_add_task:
  assumes "cards_allocated s"
  shows "active_texts (snd (add_task t sv w s)) = active_texts s @ [t]"
    and "completed_texts (snd (add_task t sv w s)) = completed_texts s"
  using assms by (auto simp: cards_allocated_def active_texts_def completed_texts_def)

lemma texts_add_completed_task:
  assumes "cards_allocated s"
  shows "active_texts (snd (add_completed_task t sv w s)) = active_texts s"
    and "completed_texts (snd (add_completed_task t sv w s)) = completed_texts s @ [t]"
  using assms by (auto simp: cards_allocated_def active_texts_def completed_texts_def)

lemma fold_add_task:
  "cards_allocated s \<Longrightarrow>
   cards_allocated (fold (\<lambda>t b. snd (add_task t sv w b)) ts s) \<and>
   active_texts (fold (\<lambda>t b. snd (add_task t sv w b)) ts s) = active_texts s @ ts \<and>
   completed_texts (fold (\<lambda>t b. snd (add_task t sv w b)) ts s) = completed_texts s"
proof (induction ts arbitrary: s)
  case Nil
  then show ?case by simp
next
  case (Cons t ts)
  from Cons.prems have "cards_allocated (snd (add_task t sv w s))" by (rule allocated_add_task)
  from Cons.IH [OF this] show ?case
    by (simp add: texts_add_task [OF Cons.prems])
qed

lemma fold_add_completed_task:
  "cards_allocated s \<Longrightarrow>
   cards_allocated (fold (\<lambda>t b. snd (add_completed_task t sv w b)) ts s) \<and>
   active_texts (fold (\<lambda>t b. snd (add_completed_task t sv w b)) ts s) = active_texts s \<and>
   completed_texts (fold (\<lambda>t b. snd (add_completed_task t sv w b)) ts s) = completed_texts s @ ts"
proof (induction ts arbitrary: s)
  case Nil
  then show ?case by simp
next
  case (Cons t ts)
  from Cons.prems have "cards_allocated (snd (add_completed_task t sv w s))" by (rule allocated_add_completed_task)
  from Cons.IH [OF this] show ?case
    by (simp add: texts_add_completed_task [OF Cons.prems])
qed

lemma allocated_fresh: "cards_allocated (fresh f)"
  by (simp add: cards_allocated_def fresh_def)

lemma texts_fresh [simp]: "active_texts (fresh f) = []" "completed_texts (fresh f) = []"
  by (simp_all add: active_texts_def completed_texts_def fresh_def)

lemma fresh_file [simp]: "data_file (fresh f) = f"
  by (simp add: fresh_def)

lemma load_state_lists:
  assumes "data_file s = Content (JObj kvs)"
    and "py_iter (case dict_lookup kvs ''tasks'' of None \<Rightarrow> JArr [] | Some v \<Rightarrow> v) = Inr ts"
    and "py_iter (case dict_lookup kvs ''completed'' of None \<Rightarrow> JArr [] | Some v \<Rightarrow> v) = Inr cs"
    and "cards_allocated s"
  shows "fst (load_state s) = Inr True"
    and "active_texts (snd (load_state s)) = active_texts s @ ts"
    and "completed_texts (snd (load_state s)) = completed_texts s @ cs"
proof -
  let ?s1 = "fold (\<lambda>t b. snd (add_task t False WriteOk b)) ts s"
  have eq: "load_state s = (Inr True, fold (\<lambda>t b. snd (add_completed_task t False WriteOk b)) cs ?s1)"
    using assms(1-3) by (simp add: load_state_def Let_def)
  have s1: "cards_allocated ?s1" "active_texts ?s1 = active_texts s @ ts" "completed_texts ?s1 = completed_texts s"
    using fold_add_task [OF assms(4)] by simp_all
  show "fst (load_state s) = Inr True" by (simp add: eq)
  show "active_texts (snd (load_state s)) = active_texts s @ ts"
    using fold_add_completed_task [OF s1(1)] by (simp add: eq s1)
  show "completed_texts (snd (load_state s)) = completed_texts s @ cs"
    using fold_add_completed_task [OF s1(1)] by (simp add: eq s1)
qed

text \<open>
  Claim C1. Saving any board (the write succeeding) and then loading the file into a fresh,
  empty board succeeds and gives an active list and a completed list with the same texts in
  the same order; a whole start-up on that file gives the same board, without the defaults.
  The loaded cards are new objects, numbered from zero again.
\<close>

theorem save_load_roundtrip:
  "fst (load_state (fresh (data_file (save_state WriteOk s)))) = Inr True \<and>
   active_texts (snd (load_state (fresh (data_file (save_state WriteOk s))))) = active_texts s \<and>
   completed_texts (snd (load_state (fresh (data_file (save_state WriteOk s))))) = completed_texts s \<and>
   app_init w (data_file (save_state WriteOk s)) =
     Inr (snd (load_state (fresh (data_file (save_state WriteOk s)))))"
proof -
  let ?f = "data_file (save_state WriteOk s)"
  have f: "data_file (fresh ?f) = Content (JObj [(''tasks'', JArr (active_texts s)), (''completed'', JArr (completed_texts s))])"
    by (simp add: save_state_file)
  have t: "py_iter (case dict_lookup [(''tasks'', JArr (active_texts s)), (''completed'', JArr (completed_texts s))] ''tasks'' of None \<Rightarrow> JArr [] | Some v \<Rightarrow> v) = Inr (active_texts s)"
    by (simp add: dict_lookup_def)
  have c: "py_iter (case dict_lookup [(''tasks'', JArr (active_texts s)), (''completed'', JArr (completed_texts s))] ''completed'' of None \<Rightarrow> JArr [] | Some v \<Rightarrow> v) = Inr (completed_texts s)"
    by (simp add: dict_lookup_def)
  note L = load_state_lists [OF f t c allocated_fresh]
  have "app_init w ?f = Inr (snd (load_state (fresh ?f)))"
    using L(1) by (simp add: app_init_def case_prod_beta)
  with L show ?thesis by simp
qed

subsection \<open>Start-up without a usable file\<close>

lemma load_state_no_file:
  "f = Missing \<or> f = Unreadable \<Longrightarrow> load_state (fresh f) = (Inr False, fresh f)"
  by (auto simp: load_state_def)

lemma load_state_not_object:
  "\<forall>kvs. d \<noteq> JObj kvs \<Longrightarrow> load_state (fresh (Content d)) = (Inr False, fresh (Content d))"
  by (cases d) (simp_all add: load_state_def)


lemma fresh_fields [simp]:
  "tasks (fresh f) = []" "completed (fresh f) = []" "next_id (fresh f) = 0"
  by (simp_all add: fresh_def)


lemma allocated_save_state [simp]: "cards_allocated (save_state w s) = cards_allocated s"
  by (simp add: cards_allocated_def)


lemma app_init_failed_load:
  "fst (load_state (fresh f)) = Inr False \<Longrightarrow>
   app_init w f = Inr (seed_defaults w (snd (load_state (fresh f))))"
  by (simp add: app_init_def case_prod_beta)

lemma app_init_missing: "app_init w Missing = Inr (seed_defaults w (fresh Missing))"
  by (simp add: app_init_failed_load load_state_no_file)

text \<open>When \<^verbatim>\<open>exists()\<close> raises, so does the constructor of the application.\<close>

lemma startup_stat_error: "app_init w StatFails = Inl OSError"
  by (simp add: app_init_def load_state_def)




lemma strip_spaces: "strip ''   '' = ''''"
  by (simp add: strip_def isspace_def)

text \<open>The board after a start-up without a file.\<close>

lemma default_board_fields:
  "tasks (seed_defaults w (fresh f)) = [0, 1, 2, 3]"
  "completed (seed_defaults w (fresh f)) = []"
  "next_id (seed_defaults w (fresh f)) = 4"
  "text_of (seed_defaults w (fresh f)) 0 = JStr ''Patch proxies to 12.2.18''"
  "text_of (seed_defaults w (fresh f)) 1 = JStr ''Prepare AI Steering Committee slides''"
  "text_of (seed_defaults w (fresh f)) (Suc 0) = JStr ''Prepare AI Steering Committee slides''"
  "text_of (seed_defaults w (fresh f)) 2 = JStr ''Finish CrowdStrike DFD''"
  "text_of (seed_defaults w (fresh f)) 3 = JStr ''Schedule PCI policy review''"
  by (simp_all add: seed_defaults_def default_tasks_def)

subsection \<open>Objects without one of the keys\<close>

lemma dict_lookup_None_iff: "dict_lookup kvs k = None \<longleftrightarrow> k \<notin> fst ` set kvs"
  by (simp add: dict_lookup_def map_of_eq_None_iff)

text \<open>
  Claim C10, as the code has it. A file that parses as a JSON object and lacks \<^verbatim>\<open>"tasks"\<close>,
  \<^verbatim>\<open>"completed"\<close> or both is loaded with success, each missing key counting as an empty
  list and no default seeded, provided the value of a key that is present can be iterated
  (a list, as the fixed shape of the file has it; also a string or an object).
\<close>

theorem load_defaults_missing_keys:
  assumes "''tasks'' \<notin> fst ` set kvs \<or> ''completed'' \<notin> fst ` set kvs"
    and "case dict_lookup kvs ''tasks'' of None \<Rightarrow> ts = [] | Some v \<Rightarrow> py_iter v = Inr ts"
    and "case dict_lookup kvs ''completed'' of None \<Rightarrow> cs = [] | Some v \<Rightarrow> py_iter v = Inr cs"
  shows "fst (load_state (fresh (Content (JObj kvs)))) = Inr True \<and>
         active_texts (snd (load_state (fresh (Content (JObj kvs))))) = ts \<and>
         completed_texts (snd (load_state (fresh (Content (JObj kvs))))) = cs \<and>
         app_init w (Content (JObj kvs)) = Inr (snd (load_state (fresh (Content (JObj kvs))))) \<and>
         (''tasks'' \<notin> fst ` set kvs \<longrightarrow> ts = []) \<and>
         (''completed'' \<notin> fst ` set kvs \<longrightarrow> cs = [])"
proof -
  let ?s = "fresh (Content (JObj kvs))"
  have f: "data_file ?s = Content (JObj kvs)" by simp
  have t: "py_iter (case dict_lookup kvs ''tasks'' of None \<Rightarrow> JArr [] | Some v \<Rightarrow> v) = Inr ts"
    using assms(2) by (simp split: option.splits)
  have c: "py_iter (case dict_lookup kvs ''completed'' of None \<Rightarrow> JArr [] | Some v \<Rightarrow> v) = Inr cs"
    using assms(3) by (simp split: option.splits)
  note L = load_state_lists [OF f t c allocated_fresh]
  have "app_init w (Content (JObj kvs)) = Inr (snd (load_state ?s))"
    using L(1) by (simp add: app_init_def case_prod_beta)
  moreover have "''tasks'' \<notin> fst ` set kvs \<longrightarrow> ts = []"
    using assms(2) by (auto simp: dict_lookup_None_iff [symmetric])
  moreover have "''completed'' \<notin> fst ` set kvs \<longrightarrow> cs = []"
    using assms(3) by (auto simp: dict_lookup_None_iff [symmetric])
  ultimately show ?thesis using L by simp
qed

text \<open>The theorem at the object \<^verbatim>\<open>{"completed": ["done"]}\<close>.\<close>

theorem load_defaults_missing_keys_witness:
  "''tasks'' \<notin> fst ` set [(''completed'', JArr [JStr ''done''])] \<and>
   fst (load_state (fresh (Content (JObj [(''completed'', JArr [JStr ''done''])])))) = Inr True \<and>
   active_texts (snd (load_state (fresh (Content (JObj [(''completed'', JArr [JStr ''done''])]))))) = [] \<and>
   completed_texts (snd (load_state (fresh (Content (JObj [(''completed'', JArr [JStr ''done''])])))))
     = [JStr ''done'']"
proof -
  let ?kvs = "[(''completed'', JArr [JStr ''done''])]"
  have k: "''tasks'' \<notin> fst ` set ?kvs \<or> ''completed'' \<notin> fst ` set ?kvs" by simp
  have t: "case dict_lookup ?kvs ''tasks'' of None \<Rightarrow> [] = [] | Some v \<Rightarrow> py_iter v = Inr []"
    by (simp add: dict_lookup_def)
  have c: "case dict_lookup ?kvs ''completed'' of None \<Rightarrow> [JStr ''done''] = []
           | Some v \<Rightarrow> py_iter v = Inr [JStr ''done'']"
    by (simp add: dict_lookup_def)
  from load_defaults_missing_keys [OF k t c, of WriteOk] show ?thesis by simp
qed

text \<open>
  Without the proviso the claim fails: the object \<^verbatim>\<open>{"completed": 5}\<close> lacks \<^verbatim>\<open>"tasks"\<close>, the
  loop over \<^verbatim>\<open>5\<close> raises \<^verbatim>\<open>TypeError\<close>, \<^verbatim>\<open>load_state\<close> returns \<^verbatim>\<open>False\<close> and the four
  defaults are seeded.
\<close>

theorem load_missing_key_counterexample:
  "''tasks'' \<notin> fst ` set [(''completed'', JNum 5)] \<and>
   fst (load_state (fresh (Content (JObj [(''completed'', JNum 5)])))) = Inr False \<and>
   app_init WriteOk (Content (JObj [(''completed'', JNum 5)])) =
     Inr (seed_defaults WriteOk (snd (load_state (fresh (Content (JObj [(''completed'', JNum 5)])))))) \<and>
   length (tasks (seed_defaults WriteOk
                   (snd (load_state (fresh (Content (JObj [(''completed'', JNum 5)]))))))) = 4"
  by (simp add: load_state_def app_init_def seed_defaults_def dict_lookup_def default_tasks_def)

section \<open>List methods and card actions\<close>

lemma set_middle: "set (as @ x # bs) = insert x (set (as @ bs))"
  by simp

lemma distinct_middle: "distinct (as @ x # bs) \<longleftrightarrow> distinct (as @ bs) \<and> x \<notin> set (as @ bs)"
  by auto

lemma set_insert_at: "set (take k xs @ x # drop k xs) = insert x (set xs)"
  using set_middle [of "take k xs" x "drop k xs"] by (simp only: append_take_drop_id)

lemma distinct_insert_at:
  "distinct (take k xs @ x # drop k xs) \<longleftrightarrow> distinct xs \<and> x \<notin> set xs"
  using distinct_middle [of "take k xs" x "drop k xs"] by (simp only: append_take_drop_id)

lemma list_insert_set [simp]: "set (list_insert xs i x) = insert x (set xs)"
  by (simp only: list_insert_def Let_def set_insert_at)

lemma list_insert_distinct [simp]:
  "distinct (list_insert xs i x) \<longleftrightarrow> distinct xs \<and> x \<notin> set xs"
  by (simp only: list_insert_def Let_def distinct_insert_at)

lemma list_pop_Inr:
  assumes "list_pop xs i = Inr (x, rest)"
  shows "set xs = insert x (set rest)"
    and "distinct xs \<longleftrightarrow> distinct rest \<and> x \<notin> set rest"
proof -
  define j where "j = nat (if i < 0 then i + int (length xs) else i)"
  from assms have j: "j < length xs" and x: "x = xs ! j"
    and rest: "rest = take j xs @ drop (Suc j) xs"
    by (auto simp: list_pop_def Let_def j_def split: if_splits)
  have xs: "xs = take j xs @ x # drop (Suc j) xs"
    using j x by (simp add: id_take_nth_drop)
  show "set xs = insert x (set rest)"
    by (subst xs) (simp add: rest)
  show "distinct xs \<longleftrightarrow> distinct rest \<and> x \<notin> set rest"
    by (subst xs) (auto simp: rest)
qed

lemma tasks_update_same: "tasks s = ts \<Longrightarrow> s\<lparr>tasks := ts\<rparr> = s"
  by auto

lemma completed_update_same: "completed s = cs \<Longrightarrow> s\<lparr>completed := cs\<rparr> = s"
  by auto

lemma complete_card_eq:
  "complete_card c sv w s =
     Inr (let s1 = snd (add_completed_task (text_of s c) False w s);
              s2 = s1\<lparr>tasks := remove1 c (tasks s)\<rparr>
          in if sv then save_state w s2 else s2)"
  by (simp add: complete_card_def list_remove_def Let_def remove1_idem tasks_update_same)

lemma delete_eq:
  "delete c w s =
     Inr (save_state w (if c \<in> set (tasks s) then s\<lparr>tasks := remove1 c (tasks s)\<rparr>
                        else s\<lparr>completed := remove1 c (completed s)\<rparr>))"
  by (simp add: delete_def list_remove_def remove1_idem completed_update_same)

lemma restore_eq:
  "restore c sv w s =
     Inr (let s1 = s\<lparr>completed := remove1 c (completed s)\<rparr>;
              s2 = snd (add_task (text_of s c) False w s1)
          in if sv then save_state w s2 else s2)"
  by (simp add: restore_def list_remove_def Let_def remove1_idem completed_update_same)

lemma inv_save_state [simp]: "board_inv (save_state w s) = board_inv s"
  by (simp add: board_inv_def cards_allocated_def)

lemma inv_add_task: "board_inv s \<Longrightarrow> board_inv (snd (add_task t sv w s))"
  by (auto simp: board_inv_def cards_allocated_def less_Suc_eq)

lemma inv_add_completed_task: "board_inv s \<Longrightarrow> board_inv (snd (add_completed_task t sv w s))"
  by (auto simp: board_inv_def cards_allocated_def less_Suc_eq)

lemma inv_remove_task: "board_inv s \<Longrightarrow> board_inv (s\<lparr>tasks := remove1 c (tasks s)\<rparr>)"
  by (auto simp: board_inv_def cards_allocated_def dest: notin_set_remove1)

lemma inv_remove_completed: "board_inv s \<Longrightarrow> board_inv (s\<lparr>completed := remove1 c (completed s)\<rparr>)"
  by (auto simp: board_inv_def cards_allocated_def dest: notin_set_remove1)

lemma inv_complete_card:
  assumes "board_inv s" and "complete_card c sv w s = Inr s'"
  shows "board_inv s'"
proof -
  let ?s1 = "snd (add_completed_task (text_of s c) False w s)"
  have "board_inv (?s1\<lparr>tasks := remove1 c (tasks ?s1)\<rparr>)"
    by (intro inv_remove_task inv_add_completed_task assms(1))
  with assms(2) show ?thesis
    by (auto simp: complete_card_eq Let_def split: if_splits)
qed

lemma inv_restore:
  assumes "board_inv s" and "restore c sv w s = Inr s'"
  shows "board_inv s'"
proof -
  let ?s1 = "s\<lparr>completed := remove1 c (completed s)\<rparr>"
  have "board_inv (snd (add_task (text_of s c) False w ?s1))"
    by (intro inv_add_task inv_remove_completed assms(1))
  with assms(2) show ?thesis
    by (auto simp: restore_eq Let_def split: if_splits)
qed

lemma inv_delete:
  assumes "board_inv s" and "delete c w s = Inr s'"
  shows "board_inv s'"
  using assms inv_remove_task [of s c] inv_remove_completed [of s c]
  by (auto simp: delete_eq split: if_splits)

lemma inv_edit: "board_inv s \<Longrightarrow> board_inv (edit c new_text w s)"
  by (auto simp: edit_def board_inv_def cards_allocated_def split: option.splits)

lemma inv_add_task_dialog: "board_inv s \<Longrightarrow> board_inv (add_task_dialog text w s)"
  by (auto simp: add_task_dialog_def inv_add_task split: option.splits)

lemma inv_on_drag_start: "board_inv s \<Longrightarrow> board_inv (on_drag_start c s)"
  by (simp add: on_drag_start_def board_inv_def cards_allocated_def)

lemma inv_on_drag_release: "board_inv s \<Longrightarrow> board_inv (on_drag_release c w s)"
  by (simp add: on_drag_release_def board_inv_def cards_allocated_def)

lemma on_drag_motion_tasks:
  assumes "on_drag_motion c geom p s = Inr s'"
  shows "set (tasks s') = set (tasks s)"
    and "distinct (tasks s') \<longleftrightarrow> distinct (tasks s)"
    and "completed s' = completed s" and "next_id s' = next_id s" and "text_of s' = text_of s"
  using assms
  by (auto simp: on_drag_motion_def Let_def list_pop_Inr
           split: option.splits if_splits sum.splits)

lemma inv_on_drag_motion:
  assumes "board_inv s" and "on_drag_motion c geom p s = Inr s'"
  shows "board_inv s'"
  using assms(1) on_drag_motion_tasks [OF assms(2)]
  by (simp add: board_inv_def cards_allocated_def)

lemma inv_handle: "board_inv s \<Longrightarrow> handle w e s = Inr s' \<Longrightarrow> board_inv s'"
  by (cases e)
    (auto intro: inv_complete_card inv_restore inv_delete inv_edit inv_add_task_dialog
       inv_on_drag_start inv_on_drag_release inv_on_drag_motion)

lemma inv_step: "board_inv s \<Longrightarrow> board_inv (step we s)"
  by (auto simp: step_def split: sum.splits intro: inv_handle)

lemma inv_run: "board_inv s \<Longrightarrow> run evs s = Some s' \<Longrightarrow> board_inv s'"
  by (induction evs arbitrary: s) (auto split: if_splits intro: inv_step)

lemma inv_fold_add_task:
  "board_inv s \<Longrightarrow> board_inv (fold (\<lambda>t b. snd (add_task (g t) sv w b)) ts s)"
  by (induction ts arbitrary: s) (auto intro: inv_add_task)

lemma inv_fold_add_completed_task:
  "board_inv s \<Longrightarrow> board_inv (fold (\<lambda>t b. snd (add_completed_task (g t) sv w b)) ts s)"
  by (induction ts arbitrary: s) (auto intro: inv_add_completed_task)

lemma inv_fresh: "board_inv (fresh f)"
  by (simp add: board_inv_def cards_allocated_def fresh_def)

lemma inv_load_state: "board_inv s \<Longrightarrow> board_inv (snd (load_state s))"
  using inv_fold_add_task [of _ "\<lambda>t. t"] inv_fold_add_completed_task [of _ "\<lambda>t. t"]
  by (auto simp: load_state_def Let_def split: disk_file.splits sum.splits)

lemma inv_seed_defaults: "board_inv s \<Longrightarrow> board_inv (seed_defaults w s)"
  by (simp add: seed_defaults_def inv_fold_add_task)

lemma inv_app_init: "app_init w f = Inr s \<Longrightarrow> board_inv s"
  using inv_load_state [OF inv_fresh, of f]
  by (auto simp: app_init_def case_prod_beta inv_seed_defaults split: sum.splits if_splits)

lemma reachable_board_inv:
  "app_init w f = Inr s0 \<Longrightarrow> run evs s0 = Some s \<Longrightarrow> board_inv s"
  by (blast intro: inv_app_init inv_run)

text \<open>
  Claim C6. Start from any board the application can reach (a start-up that returns, then
  any events) and run any sequence of events
  (add, complete, restore and delete among them): on the board reached no card is in both
  lists, and no card is twice in one list. The intermediate boards are the boards reached by
  the prefixes of the sequence.
\<close>

theorem lists_disjoint:
  assumes "app_init w f = Inr s0" and "run evs0 s0 = Some s" and "run evs s = Some s'"
  shows "set (tasks s') \<inter> set (completed s') = {} \<and> distinct (tasks s') \<and> distinct (completed s')"
proof -
  have "board_inv s" using assms(1,2) by (rule reachable_board_inv)
  then have "board_inv s'" using assms(3) by (rule inv_run)
  then show ?thesis by (simp add: board_inv_def)
qed

lemma step_Complete:
  "step (w, Complete c) s =
     save_state w (snd (add_completed_task (text_of s c) False w s)\<lparr>tasks := remove1 c (tasks s)\<rparr>)"
  by (simp add: step_def complete_card_eq Let_def)

lemma step_Restore:
  "step (w, Restore c) s =
     save_state w (snd (add_task (text_of s c) False w (s\<lparr>completed := remove1 c (completed s)\<rparr>)))"
  by (simp add: step_def restore_eq Let_def)

lemma step_AddDialog: "step (w, AddDialog input) s = add_task_dialog input w s"
  by (simp add: step_def)

lemma step_Edit: "step (w, Edit c new_text) s = edit c new_text w s"
  by (simp add: step_def)

text \<open>The claim on the default board, after completing card 2 and restoring its copy.\<close>

theorem lists_disjoint_witness:
  "app_init WriteOk Missing = Inr (seed_defaults WriteOk (fresh Missing)) \<and>
   run [] (seed_defaults WriteOk (fresh Missing)) = Some (seed_defaults WriteOk (fresh Missing)) \<and>
   (\<exists>s'. run [(WriteOk, Complete 2), (OpenFails, Restore 4)] (seed_defaults WriteOk (fresh Missing)) = Some s' \<and>
         tasks s' = [0, 1, 3, 5] \<and> completed s' = [] \<and>
         set (tasks s') \<inter> set (completed s') = {})"
proof -
  let ?s0 = "seed_defaults WriteOk (fresh Missing)"
  define s1 where "s1 = step (WriteOk, Complete 2) ?s0"
  define s2 where "s2 = step (OpenFails, Restore 4) s1"
  have f1: "tasks s1 = [0, 1, 3]" "completed s1 = [4]" "next_id s1 = 5"
    by (simp_all add: s1_def step_Complete default_board_fields)
  have f2: "tasks s2 = [0, 1, 3, 5]" "completed s2 = []"
    by (simp_all add: s2_def step_Restore f1)
  have r0: "run [] ?s0 = Some ?s0" by simp
  have r: "run [(WriteOk, Complete 2), (OpenFails, Restore 4)] ?s0 = Some s2"
    by (simp add: default_board_fields s1_def [symmetric] f1 s2_def)
  from lists_disjoint [OF app_init_missing r0 r] app_init_missing [of WriteOk] r0 r f2
  show ?thesis by simp
qed

subsection \<open>Complete, then restore\<close>

lemma remove1_nth_distinct:
  "distinct xs \<Longrightarrow> i < length xs \<Longrightarrow> remove1 (xs ! i) xs = take i xs @ drop (Suc i) xs"
proof (induction xs arbitrary: i)
  case Nil
  then show ?case by simp
next
  case (Cons x xs)
  show ?case
  proof (cases i)
    case 0
    then show ?thesis by simp
  next
    case (Suc j)
    with Cons.prems have "xs ! j \<noteq> x" by auto
    with Cons Suc show ?thesis by simp
  qed
qed

lemma nth_after_removal:
  assumes "distinct xs" and "Suc i < length xs"
  shows "(remove1 (xs ! i) xs @ ys) ! i = xs ! Suc i"
proof -
  have "remove1 (xs ! i) xs = take i xs @ drop (Suc i) xs"
    using assms by (simp add: remove1_nth_distinct)
  then show ?thesis using assms by (simp add: nth_append)
qed

text \<open>
  Claim C7. On a board that satisfies the invariant, as every reachable board does,
  completing an active card and then restoring the card that \<^verbatim>\<open>complete\<close> put at the end of
  the completed list leaves the completed list as it was and the active list as the old one
  without the card, followed by a new card with the same text. The new card is last; when
  the old card was not last, its old place now holds the card that followed it.
\<close>

theorem complete_then_restore:
  assumes "board_inv s" and "c \<in> set (tasks s)"
  shows "\<exists>s1 s2. complete_card c True w1 s = Inr s1 \<and>
           tasks s1 = remove1 c (tasks s) \<and>
           completed s1 = completed s @ [next_id s] \<and>
           text_of s1 (next_id s) = text_of s c \<and>
           restore (next_id s) True w2 s1 = Inr s2 \<and>
           completed s2 = completed s \<and>
           completed_texts s2 = completed_texts s \<and>
           tasks s2 = remove1 c (tasks s) @ [Suc (next_id s)] \<and>
           text_of s2 (Suc (next_id s)) = text_of s c \<and>
           active_texts s2 = map (text_of s) (remove1 c (tasks s)) @ [text_of s c] \<and>
           (\<forall>i. Suc i < length (tasks s) \<and> tasks s ! i = c \<longrightarrow> tasks s2 ! i = tasks s ! Suc i)"
proof -
  let ?n = "next_id s"
  define s1 where "s1 = save_state w1 (snd (add_completed_task (text_of s c) False w1 s)\<lparr>tasks := remove1 c (tasks s)\<rparr>)"
  define s2 where "s2 = save_state w2 (snd (add_task (text_of s1 ?n) False w2 (s1\<lparr>completed := remove1 ?n (completed s1)\<rparr>)))"
  from assms(1) have fresh_t: "\<forall>x\<in>set (tasks s). x < ?n" and fresh_c: "\<forall>x\<in>set (completed s). x < ?n"
    and dist: "distinct (tasks s)"
    by (auto simp: board_inv_def cards_allocated_def)
  have c1: "complete_card c True w1 s = Inr s1"
    by (simp add: complete_card_eq s1_def Let_def)
  have t1: "tasks s1 = remove1 c (tasks s)" and d1: "completed s1 = completed s @ [?n]"
    and x1: "text_of s1 = (text_of s)(?n := text_of s c)" and n1: "next_id s1 = Suc ?n"
    by (simp_all add: s1_def)
  have c2: "restore ?n True w2 s1 = Inr s2"
    by (simp add: restore_eq s2_def Let_def)
  have "?n \<notin> set (completed s)" using fresh_c by auto
  then have rm: "remove1 ?n (completed s1) = completed s"
    by (simp add: d1 remove1_append)
  have t2: "tasks s2 = remove1 c (tasks s) @ [Suc ?n]" and d2: "completed s2 = completed s"
    and x2: "text_of s2 = (text_of s)(?n := text_of s c, Suc ?n := text_of s c)"
    by (simp_all add: s2_def rm t1 n1 x1)
  have old: "text_of s2 x = text_of s x" if "x < ?n" for x
    using that by (simp add: x2)
  have ct: "completed_texts s2 = completed_texts s"
    using fresh_c by (simp add: completed_texts_def d2 old)
  have "\<forall>x\<in>set (remove1 c (tasks s)). x < ?n"
    using fresh_t by (auto dest: notin_set_remove1)
  then have at: "active_texts s2 = map (text_of s) (remove1 c (tasks s)) @ [text_of s c]"
    by (simp add: active_texts_def t2 old) (simp add: x2)
  have pos: "tasks s2 ! i = tasks s ! Suc i" if "Suc i < length (tasks s)" "tasks s ! i = c" for i
    using nth_after_removal [OF dist that(1), of "[Suc ?n]"] that(2) by (simp add: t2)
  show ?thesis
    using c1 t1 d1 x1 c2 d2 ct t2 x2 at pos by (intro exI [of _ s1] exI [of _ s2]) simp
qed

text \<open>The claim on the default board, for the third card.\<close>

theorem complete_then_restore_witness:
  "app_init WriteOk Missing = Inr (seed_defaults WriteOk (fresh Missing)) \<and>
   board_inv (seed_defaults WriteOk (fresh Missing)) \<and> 2 \<in> set (tasks (seed_defaults WriteOk (fresh Missing))) \<and>
   (\<exists>s1 s2. complete_card 2 True WriteOk (seed_defaults WriteOk (fresh Missing)) = Inr s1 \<and>
            completed s1 = [4] \<and>
            restore 4 True WriteOk s1 = Inr s2 \<and>
            tasks s2 = [0, 1, 3, 5] \<and> completed s2 = [] \<and>
            active_texts s2 =
              [JStr ''Patch proxies to 12.2.18'', JStr ''Prepare AI Steering Committee slides'',
               JStr ''Schedule PCI policy review'', JStr ''Finish CrowdStrike DFD''] \<and>
            tasks s2 ! 2 = 3)"
proof -
  let ?s0 = "seed_defaults WriteOk (fresh Missing)"
  have i: "board_inv ?s0" by (rule inv_app_init [OF app_init_missing])
  have m: "2 \<in> set (tasks ?s0)" by (simp add: default_board_fields)
  from complete_then_restore [OF i m, of WriteOk WriteOk]
  obtain s1 s2 where "complete_card 2 True WriteOk ?s0 = Inr s1"
    and "completed s1 = completed ?s0 @ [next_id ?s0]"
    and "restore (next_id ?s0) True WriteOk s1 = Inr s2"
    and "completed s2 = completed ?s0"
    and "tasks s2 = remove1 2 (tasks ?s0) @ [Suc (next_id ?s0)]"
    and "active_texts s2 = map (text_of ?s0) (remove1 2 (tasks ?s0)) @ [text_of ?s0 2]"
    and "\<forall>i. Suc i < length (tasks ?s0) \<and> tasks ?s0 ! i = 2 \<longrightarrow> tasks s2 ! i = tasks ?s0 ! Suc i"
    by blast
  then have "complete_card 2 True WriteOk ?s0 = Inr s1 \<and> completed s1 = [4] \<and>
      restore 4 True WriteOk s1 = Inr s2 \<and> tasks s2 = [0, 1, 3, 5] \<and> completed s2 = [] \<and>
      active_texts s2 =
              [JStr ''Patch proxies to 12.2.18'', JStr ''Prepare AI Steering Committee slides'',
               JStr ''Schedule PCI policy review'', JStr ''Finish CrowdStrike DFD''] \<and>
      tasks s2 ! 2 = 3"
    by (simp add: default_board_fields)
  with app_init_missing [of WriteOk] i m show ?thesis by blast
qed

subsection \<open>Delete\<close>

text \<open>
  Claim C8. \<^verbatim>\<open>delete\<close> never raises. A card in the active list leaves it; otherwise a card
  in the completed list leaves that one; a card in neither list changes no list. On a board
  that satisfies the invariant the card is in no list afterwards.
\<close>

theorem delete_removes:
  "\<exists>s'. delete c w s = Inr s' \<and> text_of s' = text_of s \<and>
     (c \<in> set (tasks s) \<longrightarrow> tasks s' = remove1 c (tasks s) \<and> completed s' = completed s) \<and>
     (c \<notin> set (tasks s) \<and> c \<in> set (completed s) \<longrightarrow>
        tasks s' = tasks s \<and> completed s' = remove1 c (completed s)) \<and>
     (c \<notin> set (tasks s) \<and> c \<notin> set (completed s) \<longrightarrow>
        tasks s' = tasks s \<and> completed s' = completed s) \<and>
     (board_inv s \<longrightarrow> c \<notin> set (tasks s') \<and> c \<notin> set (completed s'))"
  by (auto simp: delete_eq remove1_idem board_inv_def)

text \<open>
  The claim on the default board for the active card 2 and, after card 2 has been completed,
  for card 2 again (now in neither list) and for its copy 4 in the completed list.
\<close>

theorem delete_removes_witness:
  "app_init WriteOk Missing = Inr (seed_defaults WriteOk (fresh Missing)) \<and>
   (\<exists>s'. delete 2 WriteOk (seed_defaults WriteOk (fresh Missing)) = Inr s' \<and>
         tasks s' = [0, 1, 3] \<and> completed s' = [] \<and> 2 \<notin> set (tasks s')) \<and>
   (\<exists>s'. delete 2 WriteOk (step (WriteOk, Complete 2) (seed_defaults WriteOk (fresh Missing))) = Inr s' \<and>
         tasks s' = [0, 1, 3] \<and> completed s' = [4]) \<and>
   (\<exists>s'. delete 4 WriteOk (step (WriteOk, Complete 2) (seed_defaults WriteOk (fresh Missing))) = Inr s' \<and>
         tasks s' = [0, 1, 3] \<and> completed s' = [])"
proof -
  let ?s0 = "seed_defaults WriteOk (fresh Missing)"
  let ?s1 = "step (WriteOk, Complete 2) ?s0"
  have f1: "tasks ?s1 = [0, 1, 3]" "completed ?s1 = [4]"
    by (simp_all add: step_Complete default_board_fields)
  have a: "\<exists>s'. delete 2 WriteOk ?s0 = Inr s' \<and>
         tasks s' = [0, 1, 3] \<and> completed s' = [] \<and> 2 \<notin> set (tasks s')"
    using delete_removes [of 2 WriteOk ?s0] inv_app_init [OF app_init_missing, of WriteOk]
    by (auto simp: default_board_fields)
  have b: "\<exists>s'. delete 2 WriteOk ?s1 = Inr s' \<and> tasks s' = [0, 1, 3] \<and> completed s' = [4]"
    using delete_removes [of 2 WriteOk ?s1] by (simp only: f1) auto
  have c: "\<exists>s'. delete 4 WriteOk ?s1 = Inr s' \<and> tasks s' = [0, 1, 3] \<and> completed s' = []"
    using delete_removes [of 4 WriteOk ?s1] by (simp only: f1) auto
  from app_init_missing [of WriteOk] a b c show ?thesis by blast
qed

section \<open>Drag and drop\<close>

lemma scan_centers_first:
  "k < length ycs \<Longrightarrow> p < ycs ! k \<Longrightarrow> \<forall>j<k. \<not> p < ycs ! j \<Longrightarrow>
   scan_centers p ycs i = Some (i + k)"
proof (induction ycs arbitrary: i k)
  case Nil
  then show ?case by simp
next
  case (Cons c_y rest)
  show ?case
  proof (cases k)
    case 0
    with Cons.prems show ?thesis by simp
  next
    case (Suc k')
    from Cons.prems Suc have "\<not> p < c_y" by auto
    moreover have "scan_centers p rest (Suc i) = Some (Suc i + k')"
      using Cons.prems Suc by (intro Cons.IH) auto
    ultimately show ?thesis using Suc by simp
  qed
qed

lemma scan_centers_none:
  "\<forall>j<length ycs. \<not> p < ycs ! j \<Longrightarrow> scan_centers p ycs i = None"
proof (induction ycs arbitrary: i)
  case Nil
  then show ?case by simp
next
  case (Cons c_y rest)
  from Cons.prems have "\<not> p < c_y" by auto
  moreover have "scan_centers p rest (Suc i) = None"
    using Cons.prems by (intro Cons.IH) auto
  ultimately show ?case by simp
qed

lemma scan_centers_bound:
  "scan_centers p ycs i = Some k \<Longrightarrow> i \<le> k \<and> k < i + length ycs"
proof (induction ycs arbitrary: i)
  case Nil
  then show ?case by simp
next
  case (Cons c_y rest)
  show ?case
  proof (cases "p < c_y")
    case True
    with Cons.prems show ?thesis by simp
  next
    case False
    with Cons.prems have "scan_centers p rest (Suc i) = Some k" by simp
    from Cons.IH [OF this] show ?thesis by simp
  qed
qed

lemma target_index_range:
  "ycs \<noteq> [] \<Longrightarrow> 0 \<le> target_index pointer_y ycs \<and> target_index pointer_y ycs < int (length ycs)"
  by (auto simp: target_index_def split: option.splits dest: scan_centers_bound)

lemma length_y_centers [simp]: "length (y_centers geom cards) = length cards"
  by (simp add: y_centers_def)

lemma list_pop_in_range:
  "0 \<le> d \<Longrightarrow> d < int (length xs) \<Longrightarrow>
   list_pop xs d = Inr (xs ! nat d, take (nat d) xs @ drop (Suc (nat d)) xs)"
  by (simp add: list_pop_def)

lemma list_insert_in_range:
  "0 \<le> t \<Longrightarrow> t \<le> int (length xs) \<Longrightarrow>
   list_insert xs t x = take (nat t) xs @ x # drop (nat t) xs"
  by (simp add: list_insert_def Let_def min_def)

lemma nth_list_insert:
  assumes "0 \<le> t" and "t \<le> int (length xs)"
  shows "list_insert xs t x ! nat t = x"
proof -
  have "length (take (nat t) xs) = nat t"
    using assms by simp
  then show ?thesis
    using nth_append_length [of "take (nat t) xs" x "drop (nat t) xs"]
    by (simp only: list_insert_in_range [OF assms])
qed

lemma length_after_pop:
  "0 \<le> d \<Longrightarrow> d < int (length xs) \<Longrightarrow>
   int (length (take (nat d) xs @ drop (Suc (nat d)) xs)) = int (length xs) - 1"
  by auto

lemma on_drag_motion_moves:
  assumes "drag_index_of s self = Some d" and "0 \<le> d" and "d < int (length (tasks s))"
    and "t = target_index pointer_y (y_centers geom (tasks s))"
  shows "\<exists>s'. on_drag_motion self geom pointer_y s = Inr s' \<and>
           drag_index_of s' self = Some t \<and> tasks s' ! nat t = tasks s ! nat d"
proof (cases "t = d")
  case True
  with assms show ?thesis by (simp add: on_drag_motion_def)
next
  case False
  define rest where "rest = take (nat d) (tasks s) @ drop (Suc (nat d)) (tasks s)"
  define x where "x = tasks s ! nat d"
  from assms(2,3) have "y_centers geom (tasks s) \<noteq> []" by (auto simp: y_centers_def)
  from target_index_range [OF this, of pointer_y]
  have rng: "0 \<le> t" "t < int (length (tasks s))"
    by (simp_all add: assms(4))
  have pop: "list_pop (tasks s) d = Inr (x, rest)"
    unfolding x_def rest_def using assms(2,3) by (rule list_pop_in_range)
  have "int (length rest) = int (length (tasks s)) - 1"
    unfolding rest_def using assms(2,3) by (rule length_after_pop)
  with rng have "t \<le> int (length rest)" by simp
  with rng(1) have nth: "list_insert rest t x ! nat t = x" by (rule nth_list_insert)
  let ?s' = "s\<lparr>tasks := list_insert rest t x, drag_index_of := (drag_index_of s)(self := Some t)\<rparr>"
  have "on_drag_motion self geom pointer_y s = Inr ?s'"
    using False assms(1) pop by (simp add: on_drag_motion_def Let_def assms(4) [symmetric])
  moreover have "drag_index_of ?s' self = Some t" by simp
  moreover have "tasks ?s' ! nat t = tasks s ! nat d" using nth by (simp add: x_def)
  ultimately show ?thesis by blast
qed

text \<open>
  Claim C3. On a non-empty active list, whatever the dragged card and the pointer, there is
  one midpoint \<^verbatim>\<open>y + h / 2\<close> for every card, and the target index is the first index whose
  midpoint is greater than the pointer, and the last index when there is none; a pointer
  above every midpoint gives index 0. When the drag index is an index of the list,
  \<^verbatim>\<open>on_drag_motion\<close> does not raise, the dragged card ends at the target index and its drag
  index becomes the target index.
\<close>

theorem drag_target_index:
  assumes "tasks s \<noteq> []" and "ycs = y_centers geom (tasks s)"
  shows "length ycs = length (tasks s) \<and>
         (\<forall>k<length (tasks s).
            ycs ! k = of_int (fst (geom (tasks s ! k))) +
                      of_int (if snd (geom (tasks s ! k)) = 0 then 1 else snd (geom (tasks s ! k))) / 2) \<and>
         0 \<le> target_index pointer_y ycs \<and> target_index pointer_y ycs < int (length (tasks s)) \<and>
         (\<forall>k<length ycs. of_int pointer_y < ycs ! k \<and> (\<forall>j<k. \<not> of_int pointer_y < ycs ! j)
            \<longrightarrow> target_index pointer_y ycs = int k) \<and>
         ((\<forall>j<length ycs. \<not> of_int pointer_y < ycs ! j)
            \<longrightarrow> target_index pointer_y ycs = int (length (tasks s)) - 1) \<and>
         ((\<forall>j<length ycs. of_int pointer_y < ycs ! j) \<longrightarrow> target_index pointer_y ycs = 0) \<and>
         (\<forall>self d. drag_index_of s self = Some d \<and> 0 \<le> d \<and> d < int (length (tasks s)) \<longrightarrow>
            (\<exists>s'. on_drag_motion self geom pointer_y s = Inr s' \<and>
                  drag_index_of s' self = Some (target_index pointer_y ycs) \<and>
                  tasks s' ! nat (target_index pointer_y ycs) = tasks s ! nat d))"
proof -
  have len: "length ycs = length (tasks s)" by (simp add: assms(2))
  with assms(1) have ne: "ycs \<noteq> []" by auto
  have first: "target_index pointer_y ycs = int k"
    if "k < length ycs" "of_int pointer_y < ycs ! k" "\<forall>j<k. \<not> of_int pointer_y < ycs ! j" for k
    using scan_centers_first [OF that, of 0] by (simp add: target_index_def)
  have none: "target_index pointer_y ycs = int (length (tasks s)) - 1"
    if "\<forall>j<length ycs. \<not> of_int pointer_y < ycs ! j"
    using scan_centers_none [OF that, of 0] by (simp add: target_index_def len)
  have top: "target_index pointer_y ycs = 0" if "\<forall>j<length ycs. of_int pointer_y < ycs ! j"
  proof -
    from ne that have "0 < length ycs" "of_int pointer_y < ycs ! 0" by auto
    from first [OF this] show ?thesis by simp
  qed
  have move: "\<exists>s'. on_drag_motion self geom pointer_y s = Inr s' \<and>
                  drag_index_of s' self = Some (target_index pointer_y ycs) \<and>
                  tasks s' ! nat (target_index pointer_y ycs) = tasks s ! nat d"
    if "drag_index_of s self = Some d" "0 \<le> d" "d < int (length (tasks s))" for self d
    using on_drag_motion_moves [OF that] by (simp add: assms(2))
  have rng: "0 \<le> target_index pointer_y ycs \<and> target_index pointer_y ycs < int (length (tasks s))"
    using target_index_range [OF ne, of pointer_y] by (simp only: len)
  have c1: "\<forall>k<length ycs. of_int pointer_y < ycs ! k \<and> (\<forall>j<k. \<not> of_int pointer_y < ycs ! j)
            \<longrightarrow> target_index pointer_y ycs = int k"
    using first by blast
  have c4: "\<forall>self d. drag_index_of s self = Some d \<and> 0 \<le> d \<and> d < int (length (tasks s)) \<longrightarrow>
            (\<exists>s'. on_drag_motion self geom pointer_y s = Inr s' \<and>
                  drag_index_of s' self = Some (target_index pointer_y ycs) \<and>
                  tasks s' ! nat (target_index pointer_y ycs) = tasks s ! nat d)"
    using move by blast
  have mid: "\<forall>k<length (tasks s).
            ycs ! k = of_int (fst (geom (tasks s ! k))) +
                      of_int (if snd (geom (tasks s ! k)) = 0 then 1 else snd (geom (tasks s ! k))) / 2"
    by (simp add: assms(2) y_centers_def case_prod_beta)
  from len mid rng c1 none top c4 show ?thesis
    by (intro conjI impI) (assumption | erule conjunct1 | erule conjunct2)+
qed

text \<open>
  The claim on the default board with cards 60 pixels apart and 50 pixels high, the last
  card being dragged: pointers at 10, 100 and 300 give the indexes 0, 2 and 3.
\<close>

theorem drag_target_index_witness:
  "app_init WriteOk Missing = Inr (seed_defaults WriteOk (fresh Missing)) \<and>
   tasks (on_drag_start 3 (seed_defaults WriteOk (fresh Missing))) \<noteq> [] \<and>
   y_centers (\<lambda>c. (int c * 60, 50)) (tasks (on_drag_start 3 (seed_defaults WriteOk (fresh Missing))))
     = [25, 85, 145, 205] \<and>
   target_index 10 [25, 85, 145, 205] = 0 \<and>
   target_index 100 [25, 85, 145, 205] = 2 \<and>
   target_index 300 [25, 85, 145, 205] = 3 \<and>
   (\<exists>s'. on_drag_motion 3 (\<lambda>c. (int c * 60, 50)) 10 (on_drag_start 3 (seed_defaults WriteOk (fresh Missing))) = Inr s' \<and>
         drag_index_of s' 3 = Some 0 \<and> tasks s' ! 0 = 3)"
proof -
  let ?s = "on_drag_start 3 (seed_defaults WriteOk (fresh Missing))"
  let ?g = "\<lambda>c::nat. (int c * 60, 50::int)"
  let ?ycs = "[25, 85, 145, 205] :: rat list"
  have t: "tasks ?s = [0, 1, 2, 3]"
    by (simp add: on_drag_start_def default_board_fields)
  have ne: "tasks ?s \<noteq> []" by (simp add: t)
  have y: "?ycs = y_centers ?g (tasks ?s)"
    by (simp add: t y_centers_def)
  have d: "drag_index_of ?s 3 = Some 3"
    by (simp add: on_drag_start_def default_board_fields)
  have all: "\<forall>j<length ?ycs. of_int 10 < ?ycs ! j"
    by (simp add: less_Suc_eq numeral_eq_Suc)
  have none: "\<forall>j<length ?ycs. \<not> of_int 300 < ?ycs ! j"
    by (simp add: All_less_Suc numeral_eq_Suc)
  have mid: "2 < length ?ycs \<and> of_int 100 < ?ycs ! 2 \<and> (\<forall>j<2. \<not> of_int 100 < ?ycs ! j)"
    by (simp add: All_less_Suc numeral_eq_Suc)
  note T = drag_target_index [OF ne y]
  have a: "target_index 10 ?ycs = 0" using T [of 10] all by blast
  have b: "target_index 300 ?ycs = 3" using T [of 300] none by (simp add: t)
  have "target_index 100 ?ycs = int 2" using T [of 100] mid by blast
  then have c: "target_index 100 ?ycs = 2" by simp
  have "drag_index_of ?s 3 = Some 3 \<and> 0 \<le> (3::int) \<and> 3 < int (length (tasks ?s))"
    by (simp add: d t)
  with T [of 10]
  have "\<exists>s'. on_drag_motion 3 ?g 10 ?s = Inr s' \<and>
             drag_index_of s' 3 = Some (target_index 10 ?ycs) \<and>
             tasks s' ! nat (target_index 10 ?ycs) = tasks ?s ! nat 3"
    by blast
  then have m: "\<exists>s'. on_drag_motion 3 ?g 10 ?s = Inr s' \<and> drag_index_of s' 3 = Some 0 \<and> tasks s' ! 0 = 3"
    by (simp add: a t)
  from app_init_missing [of WriteOk] ne y [symmetric] a b c m show ?thesis by simp
qed

section \<open>Dialog input\<close>

lemma add_task_dialog_rejects:
  "text = None \<or> text = Some [] \<Longrightarrow> add_task_dialog text w s = s"
  by (auto simp: add_task_dialog_def)

lemma add_task_dialog_appends:
  "t \<noteq> [] \<Longrightarrow>
   tasks (add_task_dialog (Some t) w s) = tasks s @ [next_id s] \<and>
   completed (add_task_dialog (Some t) w s) = completed s \<and>
   text_of (add_task_dialog (Some t) w s) = (text_of s)(next_id s := JStr (strip t)) \<and>
   next_id (add_task_dialog (Some t) w s) = Suc (next_id s)"
  by (simp add: add_task_dialog_def)

lemma edit_rejects:
  "new_text = None \<or> new_text = Some [] \<Longrightarrow> edit c new_text w s = s"
  by (auto simp: edit_def)

lemma edit_replaces:
  "t \<noteq> [] \<Longrightarrow>
   text_of (edit c (Some t) w s) = (text_of s)(c := JStr (strip t)) \<and>
   tasks (edit c (Some t) w s) = tasks s \<and> completed (edit c (Some t) w s) = completed s \<and>
   next_id (edit c (Some t) w s) = next_id s"
  by (simp add: edit_def)

text \<open>
  Claim C4 asks that a text of whitespace only be rejected. \<^verbatim>\<open>add_task_dialog\<close> tests the
  text before it strips it: on the board of a start-up without a file, three spaces pass the
  test and a fifth card with the empty text joins the four defaults.
\<close>

theorem add_task_dialog_whitespace:
  "app_init WriteOk Missing = Inr (seed_defaults WriteOk (fresh Missing)) \<and>
   tasks (add_task_dialog (Some ''   '') WriteOk (seed_defaults WriteOk (fresh Missing))) = [0, 1, 2, 3, 4] \<and>
   text_of (add_task_dialog (Some ''   '') WriteOk (seed_defaults WriteOk (fresh Missing))) 4 = JStr ''''"
  by (simp add: app_init_missing add_task_dialog_appends default_board_fields strip_spaces)

text \<open>
  Claim C5 asks that a replacement of whitespace only leave the text alone. \<^verbatim>\<open>edit\<close> tests
  the replacement before it strips it: on the board of a start-up without a file, three
  spaces replace the text of the first default card by the empty string.
\<close>

theorem edit_whitespace:
  "app_init WriteOk Missing = Inr (seed_defaults WriteOk (fresh Missing)) \<and>
   text_of (seed_defaults WriteOk (fresh Missing)) 0 = JStr ''Patch proxies to 12.2.18'' \<and>
   text_of (edit 0 (Some ''   '') WriteOk (seed_defaults WriteOk (fresh Missing))) 0 = JStr ''''"
  by (simp add: app_init_missing edit_replaces default_board_fields strip_spaces)

section \<open>Texts of records\<close>

lemma last_dropWhile: "dropWhile P xs \<noteq> [] \<Longrightarrow> last (dropWhile P xs) = last xs"
  by (induction xs) (auto split: if_splits)

lemma dropWhile_fixed: "xs = [] \<or> \<not> P (hd xs) \<Longrightarrow> dropWhile P xs = xs"
  by (cases xs) auto

lemma strip_idem: "strip (strip s) = strip s"
proof -
  define a where "a = dropWhile isspace s"
  define b where "b = dropWhile isspace (rev a)"
  have s: "strip s = rev b" by (simp add: strip_def a_def b_def)
  have b_fix: "dropWhile isspace b = b"
    unfolding b_def by (rule dropWhile_idem)
  have "dropWhile isspace (rev b) = rev b"
  proof (cases "b = []")
    case True
    then show ?thesis by simp
  next
    case False
    then have "last b = last (rev a)" unfolding b_def by (rule last_dropWhile)
    moreover from False have "a \<noteq> []" by (auto simp: b_def)
    ultimately have "hd (rev b) = hd a" using False by (simp add: hd_rev last_rev)
    moreover have "\<not> isspace (hd a)"
      using \<open>a \<noteq> []\<close> unfolding a_def by (rule hd_dropWhile)
    ultimately show ?thesis by (intro dropWhile_fixed) simp
  qed
  then have "strip (rev b) = rev b"
    by (simp add: strip_def b_fix)
  then show ?thesis by (simp add: s)
qed

lemma valid_save_state [simp]: "texts_valid (save_state w s) = texts_valid s"
  by (simp add: texts_valid_def)

lemma valid_add_task:
  "texts_valid s \<Longrightarrow> valid_text t \<Longrightarrow> texts_valid (snd (add_task t sv w s))"
  by (simp add: texts_valid_def less_Suc_eq)

lemma valid_add_completed_task:
  "texts_valid s \<Longrightarrow> valid_text t \<Longrightarrow> texts_valid (snd (add_completed_task t sv w s))"
  by (simp add: texts_valid_def less_Suc_eq)

lemma valid_add_task_dialog:
  "texts_valid s \<Longrightarrow> good_input text \<Longrightarrow> texts_valid (add_task_dialog text w s)"
  by (cases "text") (auto simp: add_task_dialog_def strip_idem intro!: valid_add_task)

lemma valid_edit:
  "texts_valid s \<Longrightarrow> good_input new_text \<Longrightarrow> texts_valid (edit c new_text w s)"
  by (cases new_text) (auto simp: edit_def texts_valid_def strip_idem)

lemma valid_complete_card:
  assumes "texts_valid s" and "c < next_id s" and "complete_card c sv w s = Inr s'"
  shows "texts_valid s'"
proof -
  from assms(1,2) have "valid_text (text_of s c)" by (simp add: texts_valid_def)
  with assms(1) have "texts_valid (snd (add_completed_task (text_of s c) False w s))"
    by (rule valid_add_completed_task)
  with assms(3) show ?thesis
    by (auto simp: complete_card_eq Let_def texts_valid_def split: if_splits)
qed

lemma valid_restore:
  assumes "texts_valid s" and "c < next_id s" and "restore c sv w s = Inr s'"
  shows "texts_valid s'"
proof -
  let ?s1 = "s\<lparr>completed := remove1 c (completed s)\<rparr>"
  from assms(1,2) have "valid_text (text_of s c)" by (simp add: texts_valid_def)
  moreover from assms(1) have "texts_valid ?s1" by (simp add: texts_valid_def)
  ultimately have "texts_valid (snd (add_task (text_of s c) False w ?s1))"
    by (intro valid_add_task)
  with assms(3) show ?thesis
    by (auto simp: restore_eq Let_def split: if_splits)
qed

lemma valid_delete: "texts_valid s \<Longrightarrow> delete c w s = Inr s' \<Longrightarrow> texts_valid s'"
  by (auto simp: delete_eq texts_valid_def split: if_splits)

lemma valid_on_drag_motion:
  "texts_valid s \<Longrightarrow> on_drag_motion c geom p s = Inr s' \<Longrightarrow> texts_valid s'"
  using on_drag_motion_tasks(4,5) [of c geom p s s'] by (simp add: texts_valid_def)

lemma valid_handle:
  "texts_valid s'"
  if "texts_valid s" "enabled e s" "good_event e" "handle w e s = Inr s'"
proof (cases e)
  case (AddDialog input)
  then show ?thesis using that by (auto intro: valid_add_task_dialog)
next
  case (Complete c)
  then show ?thesis using that by (auto intro: valid_complete_card)
next
  case (Restore c)
  then show ?thesis using that by (auto intro: valid_restore)
next
  case (Delete c)
  then show ?thesis using that by (auto intro: valid_delete)
next
  case (Edit c new_text)
  then show ?thesis using that by (auto intro: valid_edit)
next
  case (DragStart c)
  then show ?thesis using that by (auto simp: on_drag_start_def texts_valid_def)
next
  case (DragMotion c geom pointer_y)
  then show ?thesis using that by (auto intro: valid_on_drag_motion)
next
  case (DragRelease c)
  then show ?thesis using that by (auto simp: on_drag_release_def texts_valid_def)
qed

lemma valid_step:
  "texts_valid s \<Longrightarrow> enabled (snd we) s \<Longrightarrow> good_event (snd we) \<Longrightarrow> texts_valid (step we s)"
  by (auto simp: step_def split: sum.splits intro: valid_handle)

lemma valid_run:
  "texts_valid s \<Longrightarrow> \<forall>we\<in>set evs. good_event (snd we) \<Longrightarrow> run evs s = Some s' \<Longrightarrow> texts_valid s'"
  by (induction evs arbitrary: s) (auto split: if_splits intro: valid_step)

lemma valid_fold_add_task:
  "texts_valid s \<Longrightarrow> \<forall>t\<in>set ts. valid_text (g t) \<Longrightarrow>
   texts_valid (fold (\<lambda>t b. snd (add_task (g t) sv w b)) ts s)"
  by (induction ts arbitrary: s) (auto intro: valid_add_task)

lemma valid_fold_add_completed_task:
  "texts_valid s \<Longrightarrow> \<forall>t\<in>set ts. valid_text (g t) \<Longrightarrow>
   texts_valid (fold (\<lambda>t b. snd (add_completed_task (g t) sv w b)) ts s)"
  by (induction ts arbitrary: s) (auto intro: valid_add_completed_task)

lemma valid_fresh: "texts_valid (fresh f)"
  by (simp add: texts_valid_def)

lemma valid_defaults: "\<forall>t\<in>set default_tasks. valid_text (JStr t)"
  by (simp add: default_tasks_def strip_def isspace_def)

lemma valid_seed_defaults: "texts_valid s \<Longrightarrow> texts_valid (seed_defaults w s)"
  using valid_fold_add_task [OF _ valid_defaults] by (simp add: seed_defaults_def)

lemma valid_app_init_no_file:
  assumes "f = Missing \<or> f = Unreadable" and "app_init w f = Inr s0"
  shows "texts_valid s0"
  using assms(2) valid_seed_defaults [OF valid_fresh, of w f]
  by (simp add: app_init_failed_load load_state_no_file [OF assms(1)])

text \<open>
  Claim C9, as the code has it. When start-up returns and every card of its board has a
  text that is a string, not empty after trimming (so it is after a missing or unreadable
  file), then
  so has every card in either list after any run of complete, restore, delete and drag
  events and of add and edit dialogs that were cancelled, left empty or given something
  other than whitespace.
\<close>

theorem texts_stay_valid:
  assumes "app_init w f = Inr s0"
    and "texts_valid s0"
    and "\<forall>we\<in>set evs. good_event (snd we)"
    and "run evs s0 = Some s"
  shows "\<forall>c\<in>set (tasks s) \<union> set (completed s). valid_text (text_of s c)"
proof -
  have "texts_valid s" using assms(2-4) by (rule valid_run)
  moreover have "board_inv s" using assms(1,4) by (rule reachable_board_inv)
  ultimately show ?thesis
    by (auto simp: texts_valid_def board_inv_def cards_allocated_def)
qed

text \<open>The claim on the default board, after an add, an edit and a complete.\<close>

theorem texts_stay_valid_witness:
  "app_init WriteOk Missing = Inr (seed_defaults WriteOk (fresh Missing)) \<and>
   good_event (AddDialog (Some '' Buy milk '')) \<and> good_event (Edit 0 (Some ''Patch'')) \<and>
   good_event (Complete 2) \<and>
   (\<exists>s. run [(WriteOk, AddDialog (Some '' Buy milk '')), (WriteOk, Edit 0 (Some ''Patch'')),
             (WriteOk, Complete 2)] (seed_defaults WriteOk (fresh Missing)) = Some s \<and>
        tasks s = [0, 1, 3, 4] \<and> completed s = [5] \<and>
        text_of s 4 = JStr ''Buy milk'' \<and>
        valid_text (text_of s 0) \<and> valid_text (text_of s 1) \<and> valid_text (text_of s 3) \<and>
        valid_text (text_of s 4) \<and> valid_text (text_of s 5))"
proof -
  let ?s0 = "seed_defaults WriteOk (fresh Missing)"
  let ?evs = "[(WriteOk, AddDialog (Some '' Buy milk '')), (WriteOk, Edit 0 (Some ''Patch'')),
               (WriteOk, Complete 2)]"
  define s1 where "s1 = step (WriteOk, AddDialog (Some '' Buy milk '')) ?s0"
  define s2 where "s2 = step (WriteOk, Edit 0 (Some ''Patch'')) s1"
  define s3 where "s3 = step (WriteOk, Complete 2) s2"
  have st: "strip '' Buy milk '' = ''Buy milk''" "strip ''Patch'' = ''Patch''"
    by (simp_all add: strip_def isspace_def)
  have f1: "tasks s1 = [0, 1, 2, 3, 4]" "completed s1 = []" "next_id s1 = 5"
    "text_of s1 4 = JStr ''Buy milk''"
    by (simp_all add: s1_def step_AddDialog add_task_dialog_appends default_board_fields st)
  have f2: "tasks s2 = [0, 1, 2, 3, 4]" "completed s2 = []" "next_id s2 = 5"
    "text_of s2 4 = JStr ''Buy milk''"
    by (simp_all add: s2_def step_Edit edit_replaces f1)
  have f3: "tasks s3 = [0, 1, 3, 4]" "completed s3 = [5]" "text_of s3 4 = JStr ''Buy milk''"
    by (simp_all add: s3_def step_Complete f2)
  have v: "texts_valid ?s0" by (intro valid_seed_defaults valid_fresh)
  have g: "\<forall>we\<in>set ?evs. good_event (snd we)" by (simp add: st)
  have r: "run ?evs ?s0 = Some s3"
    by (simp add: default_board_fields s1_def [symmetric] f1 s2_def [symmetric] f2 s3_def)
  from texts_stay_valid [OF app_init_missing v g r]
  have "valid_text (text_of s3 0) \<and> valid_text (text_of s3 1) \<and> valid_text (text_of s3 3) \<and>
        valid_text (text_of s3 4) \<and> valid_text (text_of s3 5)"
    by (simp add: f3)
  with r f3 have "\<exists>s. run ?evs ?s0 = Some s \<and> tasks s = [0, 1, 3, 4] \<and> completed s = [5] \<and>
        text_of s 4 = JStr ''Buy milk'' \<and>
        valid_text (text_of s 0) \<and> valid_text (text_of s 1) \<and> valid_text (text_of s 3) \<and>
        valid_text (text_of s 4) \<and> valid_text (text_of s 5)"
    by blast
  with app_init_missing [of WriteOk] g show ?thesis by simp
qed

text \<open>
  \<^verbatim>\<open>load_state\<close> copies the entries of the file into cards unchecked: the file
  \<^verbatim>\<open>{"tasks": [""]}\<close> gives a reachable board whose only card has the empty text.
\<close>

theorem loaded_text_counterexample:
  "app_init WriteOk (Content (JObj [(''tasks'', JArr [JStr ''''])])) =
     Inr (snd (load_state (fresh (Content (JObj [(''tasks'', JArr [JStr ''''])]))))) \<and>
   tasks (snd (load_state (fresh (Content (JObj [(''tasks'', JArr [JStr ''''])]))))) = [0] \<and>
   text_of (snd (load_state (fresh (Content (JObj [(''tasks'', JArr [JStr ''''])]))))) 0 = JStr '''' \<and>
   \<not> valid_text (JStr '''')"
  by (simp add: app_init_def load_state_def dict_lookup_def strip_def)

end
